theory Spec2Isabelle
  imports Main "HOL-Library.Word" "HOL-Library.Code_Target_Nat"
begin

section \<open>Data model of package srec (srec.go)\<close>

text \<open>
  Go's \<open>uint32\<close> is \<open>32 word\<close> and \<open>byte\<close> is \<open>8 word\<close>, so that subtraction and
  addition wrap as in Go. Go's \<open>int\<close> is taken as the 64-bit type of the usual targets;
  every \<open>int\<close> the code computes comes from a \<open>uint32\<close>, a length or a sum of a
  few such values, so it is modelled by \<open>int\<close> without wrap-around.

  A line is modelled by the slice \<open>strings.Split(line, "")\<close> yields: one element per
  character, of length and capacity equal to the number of characters. A slice
  expression \<open>sl[lo:hi]\<close> outside \<open>0 \<le> lo \<le> hi \<le> len(sl)\<close> and an index expression
  outside the slice are run-time panics in Go; they are the value \<open>Panicked\<close> here,
  distinct from every error the code returns.
\<close>

type_synonym u32 = "32 word"
type_synonym byte = "8 word"

datatype error =
    SyntaxError string      \<comment> \<open>strconv.ParseUint: invalid syntax, with the offending text\<close>
  | RangeError string       \<comment> \<open>strconv.ParseUint: value out of range\<close>
  | NotSrectype string      \<comment> \<open>"%s is not srectype."\<close>
  | EmptyData               \<comment> \<open>"byte data is empty. ..."\<close>
  | NotAscending            \<comment> \<open>"Address is not acending order."\<close>
  | OutOfRange u32          \<comment> \<open>"data address 0x%08X is out of srec range."\<close>

datatype failure =
    Returned error          \<comment> \<open>the function returned a non-nil error\<close>
  | Panicked                \<comment> \<open>run-time panic: slice bounds or index out of range\<close>

text \<open>
  Field names: \<open>length\<close> of the Go records is \<open>rec_length\<close> (and \<open>h_length\<close>), since
  \<open>length\<close> is the list function; the header's and the footer's fields carry a prefix
  to keep them apart from the data record's.
\<close>

record headerRecord =
  h_length :: u32
  h_data :: "byte list"
  h_checksum :: byte

record dataRecord =
  srectype :: string
  rec_length :: u32
  address :: u32
  data :: "byte list"
  checksum :: byte

record footerRecord =
  f_srectype :: string
  entryAddr :: u32
  f_checksum :: byte

record Srec =
  headerRecord :: "headerRecord option"
  dataRecords :: "dataRecord list"
  footerRecord :: "footerRecord option"
  startAddress :: u32
  endAddress :: u32
  dataBytes :: "byte list"

definition NewSrec :: Srec where
  "NewSrec = \<lparr> headerRecord = None, dataRecords = [], footerRecord = None,
               startAddress = 0, endAddress = 0, dataBytes = [] \<rparr>"

section \<open>Field decoding\<close>

text \<open>The slice expression \<open>sl[lo:hi]\<close>, joined to a string.\<close>

definition slice :: "string \<Rightarrow> int \<Rightarrow> int \<Rightarrow> failure + string" where
  "slice sl lo hi =
     (if 0 \<le> lo \<and> lo \<le> hi \<and> hi \<le> int (length sl)
      then Inr (take (nat (hi - lo)) (drop (nat lo) sl))
      else Inl Panicked)"

text \<open>
  \<open>strconv.ParseUint(s, 16, 32)\<close>: the empty string and a character that is no
  hexadecimal digit are syntax errors (no sign, no prefix and no underscore with an
  explicit base); a value above \<open>2^32 - 1\<close> is a range error. The digits are read
  left to right and the first offence decides the error.
\<close>

definition hexDigit :: "char \<Rightarrow> nat option" where
  "hexDigit c =
     (let n = (of_char c :: nat) in
      if 48 \<le> n \<and> n \<le> 57 then Some (n - 48)
      else if 97 \<le> n \<and> n \<le> 102 then Some (n - 87)
      else if 65 \<le> n \<and> n \<le> 70 then Some (n - 55)
      else None)"

fun parseDigits :: "string \<Rightarrow> nat \<Rightarrow> string \<Rightarrow> error + nat" where
  "parseDigits s0 n [] = Inr n"
| "parseDigits s0 n (c # cs) =
     (case hexDigit c of
        None \<Rightarrow> Inl (SyntaxError s0)
      | Some d \<Rightarrow>
          if 16 * n + d > 4294967295 then Inl (RangeError s0)
          else parseDigits s0 (16 * n + d) cs)"

definition ParseUint :: "string \<Rightarrow> error + nat" where
  "ParseUint s = (if s = [] then Inl (SyntaxError s) else parseDigits s 0 s)"

definition getAddrLenAsStr :: "string \<Rightarrow> error + int" where
  "getAddrLenAsStr ty =
     (if ty = ''S0'' then Inr 4
      else if ty = ''S1'' then Inr 4
      else if ty = ''S2'' then Inr 6
      else if ty = ''S3'' then Inr 8
      else Inl (NotSrectype ty))"

definition getDataLenAsStr :: "string \<Rightarrow> failure + int" where
  "getDataLenAsStr sl =
     (case slice sl 2 4 of
        Inl f \<Rightarrow> Inl f
      | Inr s \<Rightarrow>
          (case ParseUint s of
             Inl e \<Rightarrow> Inl (Returned e)
           | Inr n \<Rightarrow> Inr (int (n * 2))))"

definition getAddress :: "string \<Rightarrow> string \<Rightarrow> failure + u32" where
  "getAddress ty sl =
     (case getAddrLenAsStr ty of
        Inl e \<Rightarrow> Inl (Returned e)
      | Inr addrLenAsStr \<Rightarrow>
          (case slice sl 4 (4 + addrLenAsStr) of
             Inl f \<Rightarrow> Inl f
           | Inr s \<Rightarrow>
               (case ParseUint s of
                  Inl e \<Rightarrow> Inl (Returned e)
                | Inr addr \<Rightarrow> Inr (of_nat addr))))"

definition getLengh :: "string \<Rightarrow> failure + u32" where
  "getLengh sl =
     (case slice sl 2 4 of
        Inl f \<Rightarrow> Inl f
      | Inr s \<Rightarrow>
          (case ParseUint s of
             Inl e \<Rightarrow> Inl (Returned e)
           | Inr n \<Rightarrow> Inr (of_nat n)))"

text \<open>The loop of \<open>getData\<close>: \<open>for i := DataIndexSt; i < DataIndexEd; i += 2\<close>.\<close>

function getDataLoop :: "string \<Rightarrow> int \<Rightarrow> int \<Rightarrow> byte list \<Rightarrow> failure + byte list" where
  "getDataLoop sl i ed acc =
     (if i < ed then
        (case slice sl i (i + 2) of
           Inl f \<Rightarrow> Inl f
         | Inr s \<Rightarrow>
             (case ParseUint s of
                Inl e \<Rightarrow> Inl (Returned e)
              | Inr b \<Rightarrow> getDataLoop sl (i + 2) ed (acc @ [of_nat b])))
      else Inr acc)"
  by pat_completeness auto
termination
  by (relation "measure (\<lambda>(sl, i, ed, acc). nat (ed - i))") auto

declare getDataLoop.simps [simp del]

definition getData :: "string \<Rightarrow> string \<Rightarrow> failure + byte list" where
  "getData ty sl =
     (case getAddrLenAsStr ty of
        Inl e \<Rightarrow> Inl (Returned e)
      | Inr addrLenAsStr \<Rightarrow>
          (case getDataLenAsStr sl of
             Inl f \<Rightarrow> Inl f
           | Inr dataLenAsStr \<Rightarrow>
               getDataLoop sl (2 + 2 + addrLenAsStr) ((2 + 2) + (dataLenAsStr - 2)) []))"

definition getChecksum :: "string \<Rightarrow> string \<Rightarrow> failure + byte" where
  "getChecksum ty sl =
     (case getDataLenAsStr sl of
        Inl f \<Rightarrow> Inl f
      | Inr dataLenAsStr \<Rightarrow>
          (case slice sl (2 + 2 + dataLenAsStr - 2) (2 + 2 + dataLenAsStr) of
             Inl f \<Rightarrow> Inl f
           | Inr s \<Rightarrow>
               (case ParseUint s of
                  Inl e \<Rightarrow> Inl (Returned e)
                | Inr csum \<Rightarrow> Inr (of_nat csum))))"

text \<open>
  The record under construction is local to \<open>ParseFile\<close> and dropped when a field
  fails, so the two decoders return the finished record or the failure.
\<close>

definition getHeaderRecordFields :: "string \<Rightarrow> failure + headerRecord" where
  "getHeaderRecordFields sl =
     (case getLengh sl of
        Inl f \<Rightarrow> Inl f
      | Inr len \<Rightarrow>
          (case getData ''S0'' sl of
             Inl f \<Rightarrow> Inl f
           | Inr d \<Rightarrow>
               (case getChecksum ''S0'' sl of
                  Inl f \<Rightarrow> Inl f
                | Inr c \<Rightarrow> Inr \<lparr> h_length = len, h_data = d, h_checksum = c \<rparr>)))"

definition getDataRecordFields :: "string \<Rightarrow> string \<Rightarrow> failure + dataRecord" where
  "getDataRecordFields ty sl =
     (case getLengh sl of
        Inl f \<Rightarrow> Inl f
      | Inr len \<Rightarrow>
          (case getAddress ty sl of
             Inl f \<Rightarrow> Inl f
           | Inr a \<Rightarrow>
               (case getData ty sl of
                  Inl f \<Rightarrow> Inl f
                | Inr d \<Rightarrow>
                    (case getChecksum ty sl of
                       Inl f \<Rightarrow> Inl f
                     | Inr c \<Rightarrow>
                         Inr \<lparr> srectype = ty, rec_length = len, address = a,
                               data = d, checksum = c \<rparr>))))"

section \<open>Checks and assembly\<close>

definition isDataRecordExists :: "Srec \<Rightarrow> error option" where
  "isDataRecordExists sr = (if length (dataRecords sr) = 0 then Some EmptyData else None)"

text \<open>
  The loop of \<open>isAddrAcending\<close>, with its index \<open>i\<close> and its variable \<open>prevAddr\<close>
  (zero at the start; the iteration \<open>i == 0\<close> is left by \<open>continue\<close> before the
  assignment to \<open>prevAddr\<close>).
\<close>

fun ascLoop :: "u32 \<Rightarrow> nat \<Rightarrow> dataRecord list \<Rightarrow> error option" where
  "ascLoop prevAddr i [] = None"
| "ascLoop prevAddr i (brec # rest) =
     (if i = 0 then ascLoop prevAddr (i + 1) rest
      else if address brec < prevAddr then Some NotAscending
      else ascLoop (address brec) (i + 1) rest)"

definition isAddrAcending :: "Srec \<Rightarrow> error option" where
  "isAddrAcending sr = ascLoop 0 0 (dataRecords sr)"

definition getStartAddr :: "Srec \<Rightarrow> failure + u32" where
  "getStartAddr sr =
     (case dataRecords sr of [] \<Rightarrow> Inl Panicked | r # rs \<Rightarrow> Inr (address r))"

definition getEndAddr :: "Srec \<Rightarrow> failure + u32" where
  "getEndAddr sr =
     (if dataRecords sr = [] then Inl Panicked else Inr (address (last (dataRecords sr))))"

definition getLastRecordDataLen :: "Srec \<Rightarrow> failure + u32" where
  "getLastRecordDataLen sr =
     (if dataRecords sr = [] then Inl Panicked
      else Inr (of_nat (length (data (last (dataRecords sr))))))"

text \<open>The first loop of \<open>makePaddedBytes\<close> appends \<open>0xFF\<close> \<open>int(size)\<close> times.\<close>

fun padLoop :: "nat \<Rightarrow> byte list \<Rightarrow> byte list" where
  "padLoop 0 bs = bs"
| "padLoop (Suc n) bs = padLoop n (bs @ [0xFF])"

text \<open>
  The inner loop over \<open>i < len(brcs.data)\<close>: the range test against the fields
  \<open>startAddress\<close> and \<open>endAddress\<close> comes first in every iteration, then the indexed
  store, which panics outside the buffer. The buffer reached so far is returned
  with the failure, since the Go code stores into \<open>sr.dataBytes\<close> in place.
\<close>

fun copyData :: "u32 \<Rightarrow> u32 \<Rightarrow> int \<Rightarrow> u32 \<Rightarrow> nat \<Rightarrow> byte list \<Rightarrow> byte list
                 \<Rightarrow> failure option \<times> byte list" where
  "copyData st en ofst a i [] buf = (None, buf)"
| "copyData st en ofst a i (b # bs) buf =
     (if a < st \<or> a > en then (Some (Returned (OutOfRange a)), buf)
      else
        (let idx = (uint a - ofst) + int i in
         if idx < 0 \<or> int (length buf) \<le> idx then (Some Panicked, buf)
         else copyData st en ofst a (i + 1) bs (buf[nat idx := b])))"

fun copyRecords :: "u32 \<Rightarrow> u32 \<Rightarrow> int \<Rightarrow> dataRecord list \<Rightarrow> byte list
                    \<Rightarrow> failure option \<times> byte list" where
  "copyRecords st en ofst [] buf = (None, buf)"
| "copyRecords st en ofst (brcs # rest) buf =
     (case copyData st en ofst (address brcs) 0 (data brcs) buf of
        (Some f, buf') \<Rightarrow> (Some f, buf')
      | (None, buf') \<Rightarrow> copyRecords st en ofst rest buf')"

definition makePaddedBytes :: "Srec \<Rightarrow> u32 \<Rightarrow> u32 \<Rightarrow> u32 \<Rightarrow> failure option \<times> Srec" where
  "makePaddedBytes sr startAddr endAddr lastRecordDataLen =
     (let size = (endAddr - startAddr) + lastRecordDataLen;
          padded = padLoop (unat size) (dataBytes sr);
          ofst = uint startAddr;
          (res, buf) = copyRecords (startAddress sr) (endAddress sr) ofst (dataRecords sr) padded
      in (res, sr\<lparr>dataBytes := buf\<rparr>))"

section \<open>ParseFile\<close>

text \<open>
  The scanner hands over the lines in file order. The loop returns at the first
  failing line with the receiver as it is at that moment; the \<open>S7\<close>, \<open>S8\<close>, \<open>S9\<close>
  case and the \<open>default\<close> case have empty bodies.
\<close>

fun scanLines :: "Srec \<Rightarrow> string list \<Rightarrow> failure option \<times> Srec" where
  "scanLines srs [] = (None, srs)"
| "scanLines srs (splitedLine # rest) =
     (case slice splitedLine 0 2 of
        Inl f \<Rightarrow> (Some f, srs)
      | Inr ty \<Rightarrow>
          if ty = ''S0'' then
            (case getHeaderRecordFields splitedLine of
               Inl f \<Rightarrow> (Some f, srs)
             | Inr rec \<Rightarrow> scanLines (srs\<lparr>headerRecord := Some rec\<rparr>) rest)
          else if ty = ''S1'' \<or> ty = ''S2'' \<or> ty = ''S3'' then
            (case getDataRecordFields ty splitedLine of
               Inl f \<Rightarrow> (Some f, srs)
             | Inr rec \<Rightarrow> scanLines (srs\<lparr>dataRecords := dataRecords srs @ [rec]\<rparr>) rest)
          else if ty = ''S7'' \<or> ty = ''S8'' \<or> ty = ''S9'' then scanLines srs rest
          else scanLines srs rest)"

definition assemble :: "Srec \<Rightarrow> failure option \<times> Srec" where
  "assemble srs =
     (case isDataRecordExists srs of
        Some e \<Rightarrow> (Some (Returned e), srs)
      | None \<Rightarrow>
          (case isAddrAcending srs of
             Some e \<Rightarrow> (Some (Returned e), srs)
           | None \<Rightarrow>
               (case getStartAddr srs of
                  Inl f \<Rightarrow> (Some f, srs)
                | Inr sa \<Rightarrow>
                    (let s1 = srs\<lparr>startAddress := sa\<rparr> in
                     case getEndAddr s1 of
                       Inl f \<Rightarrow> (Some f, s1)
                     | Inr ea \<Rightarrow>
                         (let s2 = s1\<lparr>endAddress := ea\<rparr> in
                          case getLastRecordDataLen s2 of
                            Inl f \<Rightarrow> (Some f, s2)
                          | Inr n \<Rightarrow> makePaddedBytes s2 (startAddress s2) (endAddress s2) n)))))"

definition ParseFile :: "Srec \<Rightarrow> string list \<Rightarrow> failure option \<times> Srec" where
  "ParseFile srs ls =
     (case scanLines srs ls of
        (Some f, s) \<Rightarrow> (Some f, s)
      | (None, s) \<Rightarrow> assemble s)"

section \<open>The image: Bytes and SetBytes\<close>

text \<open>The two methods stand in srec.go and, word for word, in bytes.go.\<close>

definition Bytes :: "Srec \<Rightarrow> byte list" where
  "Bytes sr = dataBytes sr"

text \<open>The loop of \<open>SetBytes\<close>: \<open>sr.dataBytes[start+i] = wBytes[i]\<close> for \<open>i < len(wBytes)\<close>.\<close>

fun setLoop :: "int \<Rightarrow> nat \<Rightarrow> byte list \<Rightarrow> byte list \<Rightarrow> failure option \<times> byte list" where
  "setLoop start i [] buf = (None, buf)"
| "setLoop start i (b # bs) buf =
     (let idx = start + int i in
      if idx < 0 \<or> int (length buf) \<le> idx then (Some Panicked, buf)
      else setLoop start (i + 1) bs (buf[nat idx := b]))"

definition SetBytes :: "Srec \<Rightarrow> u32 \<Rightarrow> byte list \<Rightarrow> failure option \<times> Srec" where
  "SetBytes sr wAddr wBytes =
     (if length (dataRecords sr) = 0 then (Some (Returned EmptyData), sr)
      else if wAddr < startAddress sr \<or> wAddr > endAddress sr
      then (Some (Returned (OutOfRange wAddr)), sr)
      else
        (let start = uint wAddr - uint (startAddress sr);
             (res, buf) = setLoop start 0 wBytes (dataBytes sr)
         in (res, sr\<lparr>dataBytes := buf\<rparr>)))"

section \<open>The earlier ParseFile\<close>

text \<open>
  A second source file of the package (its name is not known) holds an earlier
  \<open>ParseFile\<close>, which returns nothing and only collects the data records. Its names
  that clash with the ones above carry the suffix \<open>_000\<close> here.
\<close>

record BinaryRecord =
  Srectype :: string
  Length :: u32
  Address :: u32
  Data :: "byte list"
  Checksum :: byte

text \<open>
  This \<open>ParseFile\<close> drops the error of every \<open>strconv.ParseUint\<close> and goes on with
  the value returned beside it: zero after a syntax error, the largest 32-bit value
  after a range error.
\<close>

definition ParseUintValue :: "string \<Rightarrow> nat" where
  "ParseUintValue s =
     (case ParseUint s of
        Inr n \<Rightarrow> n
      | Inl (RangeError t) \<Rightarrow> 4294967295
      | Inl e \<Rightarrow> 0)"

definition getAddrStrLen :: "string \<Rightarrow> error + int" where
  "getAddrStrLen ty =
     (if ty = ''S1'' then Inr 4
      else if ty = ''S2'' then Inr 6
      else if ty = ''S3'' then Inr 8
      else Inl (NotSrectype ty))"

definition getLengthStrLen :: "string \<Rightarrow> failure + int" where
  "getLengthStrLen sl =
     (case slice sl 2 4 of
        Inl f \<Rightarrow> Inl f
      | Inr s \<Rightarrow> Inr (int (ParseUintValue s * 2)))"

function dataLoop_000 :: "string \<Rightarrow> int \<Rightarrow> int \<Rightarrow> byte list \<Rightarrow> failure + byte list" where
  "dataLoop_000 sl i ed acc =
     (if i < ed then
        (case slice sl i (i + 2) of
           Inl f \<Rightarrow> Inl f
         | Inr s \<Rightarrow> dataLoop_000 sl (i + 2) ed (acc @ [of_nat (ParseUintValue s)]))
      else Inr acc)"
  by pat_completeness auto
termination
  by (relation "measure (\<lambda>(sl, i, ed, acc). nat (ed - i))") auto

declare dataLoop_000.simps [simp del]

text \<open>
  The fields of the receiver are assigned at the end only, so a panic leaves it as it
  was; the error of \<open>getAddrStrLen\<close> is returned before anything is read.
\<close>

definition getSrecBinaryRecordFields ::
    "BinaryRecord \<Rightarrow> string \<Rightarrow> string \<Rightarrow> failure option \<times> BinaryRecord" where
  "getSrecBinaryRecordFields rec ty sl =
     (case getAddrStrLen ty of
        Inl e \<Rightarrow> (Some (Returned e), rec)
      | Inr addrStrLen \<Rightarrow>
     (case getLengthStrLen sl of
        Inl f \<Rightarrow> (Some f, rec)
      | Inr lengthStrLen \<Rightarrow>
     (case slice sl 2 4 of
        Inl f \<Rightarrow> (Some f, rec)
      | Inr s1 \<Rightarrow>
     (case slice sl 4 (4 + addrStrLen) of
        Inl f \<Rightarrow> (Some f, rec)
      | Inr s2 \<Rightarrow>
     (case dataLoop_000 sl (2 + 2 + addrStrLen) ((2 + 2) + (lengthStrLen - 2)) [] of
        Inl f \<Rightarrow> (Some f, rec)
      | Inr d \<Rightarrow>
     (let len = ParseUintValue s1 in
      case slice sl (4 + (int len * 2) - 2) ((4 + (int len * 2) - 2) + 2) of
        Inl f \<Rightarrow> (Some f, rec)
      | Inr s3 \<Rightarrow>
          (None, \<lparr> Srectype = ty, Length = of_nat len, Address = of_nat (ParseUintValue s2),
                   Data = d, Checksum = of_nat (ParseUintValue s3) \<rparr>)))))))"

text \<open>
  The loop works on one \<open>BinaryRecord\<close>, allocated before it, and appends a copy of
  it after every \<open>S1\<close>, \<open>S2\<close>, \<open>S3\<close> line, whatever
  \<open>getSrecBinaryRecordFields\<close> returned; all other cases are empty.
\<close>

fun scanLines_000 :: "BinaryRecord \<Rightarrow> BinaryRecord list \<Rightarrow> string list
                      \<Rightarrow> failure option \<times> BinaryRecord list" where
  "scanLines_000 rec recs [] = (None, recs)"
| "scanLines_000 rec recs (sl # rest) =
     (case slice sl 0 2 of
        Inl f \<Rightarrow> (Some f, recs)
      | Inr ty \<Rightarrow>
          if ty = ''S0'' then scanLines_000 rec recs rest
          else if ty = ''S1'' \<or> ty = ''S2'' \<or> ty = ''S3'' then
            (case getSrecBinaryRecordFields rec ty sl of
               (Some Panicked, rec') \<Rightarrow> (Some Panicked, recs)
             | (r, rec') \<Rightarrow> scanLines_000 rec' (recs @ [rec']) rest)
          else if ty = ''S7'' \<or> ty = ''S8'' \<or> ty = ''S9'' then scanLines_000 rec recs rest
          else scanLines_000 rec recs rest)"

definition ParseFile_000 :: "BinaryRecord list \<Rightarrow> string list \<Rightarrow> failure option \<times> BinaryRecord list" where
  "ParseFile_000 recs ls =
     scanLines_000 \<lparr> Srectype = [], Length = 0, Address = 0, Data = [], Checksum = 0 \<rparr> recs ls"

section \<open>Ranges of the data records in the buffer\<close>

text \<open>
  The offset of a data record in the buffer is \<open>address - startAddress\<close>, computed
  by \<open>makePaddedBytes\<close> on \<open>int\<close>; a record covers the offsets from there up to its
  data length, so a record without data covers nothing.
\<close>

definition recOffset :: "Srec \<Rightarrow> dataRecord \<Rightarrow> int" where
  "recOffset sr r = uint (address r) - uint (startAddress sr)"

definition covers :: "Srec \<Rightarrow> dataRecord \<Rightarrow> nat \<Rightarrow> bool" where
  "covers sr r p = (recOffset sr r \<le> int p \<and> int p < recOffset sr r + int (length (data r)))"

section \<open>Example files\<close>

text \<open>Two data records whose ranges overlap in one byte, and the image they give.\<close>

definition overlap_file :: "string list" where
  "overlap_file = [''S1050000AABB00'', ''S1050001CCDD00'']"

definition overlap_image :: Srec where
  "overlap_image =
     \<lparr> headerRecord = None,
       dataRecords =
         [\<lparr> srectype = ''S1'', rec_length = 5, address = 0, data = [0xAA, 0xBB], checksum = 0 \<rparr>,
          \<lparr> srectype = ''S1'', rec_length = 5, address = 1, data = [0xCC, 0xDD], checksum = 0 \<rparr>],
       footerRecord = None, startAddress = 0, endAddress = 1,
       dataBytes = [0xAA, 0xCC, 0xDD] \<rparr>"

text \<open>A header, two data records with a gap of two bytes between them, and a footer.\<close>

definition gap_file :: "string list" where
  "gap_file = [''S0030000FC'', ''S1040010AA00'', ''S1040013BB00'', ''S9030000FC'']"

definition gap_image :: Srec where
  "gap_image =
     \<lparr> headerRecord = Some \<lparr> h_length = 3, h_data = [], h_checksum = 0xFC \<rparr>,
       dataRecords =
         [\<lparr> srectype = ''S1'', rec_length = 4, address = 0x10, data = [0xAA], checksum = 0 \<rparr>,
          \<lparr> srectype = ''S1'', rec_length = 4, address = 0x13, data = [0xBB], checksum = 0 \<rparr>],
       footerRecord = None, startAddress = 0x10, endAddress = 0x13,
       dataBytes = [0xAA, 0xFF, 0xFF, 0xBB] \<rparr>"

text \<open>Two data records at the same address.\<close>

definition same_address_file :: "string list" where
  "same_address_file = [''S1040020AA00'', ''S1050020CCDD00'']"

definition same_address_image :: Srec where
  "same_address_image =
     \<lparr> headerRecord = None,
       dataRecords =
         [\<lparr> srectype = ''S1'', rec_length = 4, address = 0x20, data = [0xAA], checksum = 0 \<rparr>,
          \<lparr> srectype = ''S1'', rec_length = 5, address = 0x20, data = [0xCC, 0xDD], checksum = 0 \<rparr>],
       footerRecord = None, startAddress = 0x20, endAddress = 0x20,
       dataBytes = [0xCC, 0xDD] \<rparr>"

text \<open>Two data records, the second at a lower address than the first.\<close>

definition descending_file :: "string list" where
  "descending_file = [''S1040100AA00'', ''S1040050BB00'']"

text \<open>Three data records; the second, without data, lies below the first.\<close>

definition swapped_file :: "string list" where
  "swapped_file = [''S1040002AA00'', ''S103000100'', ''S1040003BB00'']"



text \<open>The lines of \<open>gap_file\<close> with a line in between that starts with no record type.\<close>

definition comment_file :: "string list" where
  "comment_file =
     [''S0030000FC'', ''S1040010AA00'', ''XY no record'', ''S1040013BB00'', ''S9030000FC'']"

section \<open>Failures of a line that is cut short\<close>

text \<open>
  How the decoding of a line shorter than its length field announces can end: in a
  panic, or in the syntax error of \<open>strconv.ParseUint\<close> when a character after the
  length field is no hexadecimal digit.
\<close>

definition cut_line_failure :: "string \<Rightarrow> failure \<Rightarrow> bool" where
  "cut_line_failure sl f =
     (f = Panicked \<or>
      ((\<exists>s. f = Returned (SyntaxError s)) \<and> (\<exists>c \<in> set (drop 4 sl). hexDigit c = None)))"

section \<open>Evaluation on concrete files\<close>

lemma padLoop_eq: "padLoop n bs = bs @ replicate n 0xFF"
  by (induction n arbitrary: bs) (simp_all add: replicate_app_Cons_same)

lemma padLoop_numeral:
  "padLoop (numeral n) bs = padLoop (pred_numeral n) (bs @ [0xFF])"
  by (simp add: numeral_eq_Suc)

lemmas decode_defs = getDataRecordFields_def getHeaderRecordFields_def getLengh_def
  slice_def ParseUint_def hexDigit_def getAddress_def getAddrLenAsStr_def getData_def
  getDataLenAsStr_def getDataLoop.simps getChecksum_def

lemmas assemble_defs = ParseFile_def NewSrec_def assemble_def isDataRecordExists_def
  isAddrAcending_def getStartAddr_def getEndAddr_def getLastRecordDataLen_def
  makePaddedBytes_def padLoop_numeral

lemma ParseFile_overlap_file: "ParseFile NewSrec overlap_file = (None, overlap_image)"
  by (simp add: overlap_file_def overlap_image_def decode_defs assemble_defs)

lemma ParseFile_gap_file: "ParseFile NewSrec gap_file = (None, gap_image)"
  by (simp add: gap_file_def gap_image_def decode_defs assemble_defs)

lemma ParseFile_same_address_file:
  "ParseFile NewSrec same_address_file = (None, same_address_image)"
  by (simp add: same_address_file_def same_address_image_def decode_defs assemble_defs)

section \<open>Field decoding of short lines\<close>

lemma hexDigit_less: "hexDigit c = Some d \<Longrightarrow> d < 16"
  by (auto simp: hexDigit_def Let_def split: if_splits)

lemma parseDigits_short:
  "n < 16 ^ k \<Longrightarrow> k + length cs \<le> 8 \<Longrightarrow>
   (\<exists>m. parseDigits s0 n cs = Inr m \<and> m < 16 ^ (k + length cs)) \<or>
   (parseDigits s0 n cs = Inl (SyntaxError s0) \<and> (\<exists>c \<in> set cs. hexDigit c = None))"
proof (induction cs arbitrary: n k)
  case Nil
  then show ?case by simp
next
  case (Cons c cs)
  show ?case
  proof (cases "hexDigit c")
    case None
    then show ?thesis by simp
  next
    case (Some d)
    then have d: "d < 16" by (rule hexDigit_less)
    from Cons.prems(1) have "16 * n + 16 \<le> 16 * 16 ^ k" by simp
    with d have lt: "16 * n + d < 16 ^ Suc k" by simp
    have "(16::nat) ^ Suc k \<le> 16 ^ 8"
      using Cons.prems(2) by (intro power_increasing) simp_all
    with lt have fit: "\<not> 16 * n + d > 4294967295" by simp
    from Cons.prems(2) have "Suc k + length cs \<le> 8" by simp
    from Cons.IH [OF lt this] Some fit show ?thesis by auto
  qed
qed

lemma ParseUint_short:
  assumes "length s \<le> 8"
  shows "(\<exists>m. ParseUint s = Inr m \<and> m < 16 ^ length s) \<or>
         (ParseUint s = Inl (SyntaxError s) \<and> (s = [] \<or> (\<exists>c \<in> set s. hexDigit c = None)))"
  using parseDigits_short [of 0 0 s s] assms by (auto simp: ParseUint_def)

lemma slice_Inr:
  assumes "slice sl lo hi = Inr s"
  shows "length s = nat (hi - lo)" and "set s \<subseteq> set (drop (nat lo) sl)"
  using assms by (auto simp: slice_def split: if_splits dest: in_set_takeD)

lemma slice_ParseUint_failure:
  assumes sl: "slice sl lo hi = Inr s" and lo: "4 \<le> lo" and w: "0 < hi - lo" "hi - lo \<le> 8"
    and f: "ParseUint s = Inl e"
  shows "cut_line_failure sl (Returned e)"
proof -
  from slice_Inr [OF sl] w have len: "length s \<le> 8" "s \<noteq> []" by auto
  from ParseUint_short [OF len(1)] f len(2)
  obtain c where e: "e = SyntaxError s" and c: "c \<in> set s" "hexDigit c = None" by auto
  have "set (drop (nat lo) sl) \<subseteq> set (drop 4 sl)"
    using lo by (intro set_drop_subset_set_drop) simp
  with slice_Inr(2) [OF sl] c have "\<exists>c \<in> set (drop 4 sl). hexDigit c = None" by blast
  with e show ?thesis by (simp add: cut_line_failure_def)
qed

lemma getDataLoop_failure:
  "4 \<le> i \<Longrightarrow> getDataLoop sl i ed acc = Inl f \<Longrightarrow> cut_line_failure sl f"
proof (induction sl i ed acc rule: getDataLoop.induct)
  case (1 sl i ed acc)
  from "1.prems"(2) have lt: "i < ed"
    by (subst (asm) getDataLoop.simps) (simp split: if_splits)
  show ?case
  proof (cases "slice sl i (i + 2)")
    case (Inl g)
    with "1.prems"(2) lt have "f = g"
      by (subst (asm) getDataLoop.simps) simp
    moreover from Inl have "g = Panicked" by (simp add: slice_def split: if_splits)
    ultimately show ?thesis by (simp add: cut_line_failure_def)
  next
    case (Inr s)
    show ?thesis
    proof (cases "ParseUint s")
      case (Inl e)
      with "1.prems"(2) lt Inr have "f = Returned e"
        by (subst (asm) getDataLoop.simps) simp
      with slice_ParseUint_failure [OF Inr "1.prems"(1) _ _ Inl] show ?thesis by simp
    next
      case b: (Inr b)
      with "1.prems"(2) lt Inr have "getDataLoop sl (i + 2) ed (acc @ [of_nat b]) = Inl f"
        by (subst (asm) getDataLoop.simps) simp
      moreover have "4 \<le> i + 2" using "1.prems"(1) by simp
      ultimately show ?thesis using "1.IH" [OF lt Inr b] by simp
    qed
  qed
qed

lemma getLengh_Inr:
  assumes "getLengh sl = Inr n"
  obtains k where "getDataLenAsStr sl = Inr (int (k * 2))" and "uint n = int k"
proof -
  from assms obtain s k where s: "slice sl 2 4 = Inr s" and k: "ParseUint s = Inr k"
    and n: "n = of_nat k"
    by (auto simp: getLengh_def split: sum.splits)
  from slice_Inr(1) [OF s] have "length s = 2" by simp
  with ParseUint_short [of s] k have "k < 256" by auto
  then have "uint n = int k" unfolding n by (simp add: uint_nat unat_of_nat)
  moreover from s k have "getDataLenAsStr sl = Inr (int (k * 2))"
    by (simp add: getDataLenAsStr_def)
  ultimately show ?thesis by (rule that [rotated])
qed

lemma getChecksum_short:
  assumes "getDataLenAsStr sl = Inr m" and "int (length sl) < 4 + m"
  shows "getChecksum ty sl = Inl Panicked"
  using assms by (simp add: getChecksum_def slice_def)

lemma getData_failure:
  assumes "getAddrLenAsStr ty = Inr a" and "0 \<le> a" and "getDataLenAsStr sl = Inr m"
    and "getData ty sl = Inl f"
  shows "cut_line_failure sl f"
  using assms getDataLoop_failure [of "2 + 2 + a" sl "(2 + 2) + (m - 2)" "[]" f]
  by (simp add: getData_def)

lemma getAddress_failure:
  assumes ty: "ty \<in> {''S1'', ''S2'', ''S3''}" and f: "getAddress ty sl = Inl f"
  shows "cut_line_failure sl f"
proof -
  from ty obtain a where a: "getAddrLenAsStr ty = Inr a" "0 < a" "a \<le> 8"
    by (auto simp: getAddrLenAsStr_def)
  show ?thesis
  proof (cases "slice sl 4 (4 + a)")
    case (Inl g)
    then have "g = Panicked" by (simp add: slice_def split: if_splits)
    with Inl a f show ?thesis by (simp add: getAddress_def cut_line_failure_def)
  next
    case (Inr s)
    with a f obtain e where e: "ParseUint s = Inl e" "f = Returned e"
      by (auto simp: getAddress_def split: sum.splits)
    from slice_ParseUint_failure [OF Inr _ _ _ e(1)] a e(2) show ?thesis by simp
  qed
qed

text \<open>
  C6 fails: the decoders slice the line without comparing its length with the length
  field, so a line that is cut short ends in a panic, not in a returned error.
\<close>

theorem short_line_panics_counterexample:
  "getLengh ''S1130000'' = Inr 0x13 \<and>
   int (length ''S1130000'') < 4 + 2 * uint (0x13 :: u32) \<and>
   getDataRecordFields ''S1'' ''S1130000'' = Inl Panicked \<and>
   fst (ParseFile NewSrec [''S1130000'']) = Some Panicked"
  by (simp add: decode_defs assemble_defs)

text \<open>
  C6, amended. For every \<open>S1\<close>, \<open>S2\<close>, \<open>S3\<close> line (and every header line) whose
  length field decodes to \<open>n\<close> and that has fewer than \<open>4 + 2 * n\<close> characters, the
  decoding of the fields never succeeds. It ends in a run-time panic, which is no
  returned error; only when a character after the length field is no hexadecimal
  digit can it end earlier, in the syntax error of \<open>strconv.ParseUint\<close>.
\<close>

theorem short_line_never_decodes:
  assumes len: "getLengh sl = Inr n"
    and short: "int (length sl) < 4 + 2 * uint n"
    and ty: "ty \<in> {''S1'', ''S2'', ''S3''}"
  shows "(\<exists>f. getDataRecordFields ty sl = Inl f \<and> cut_line_failure sl f) \<and>
         (\<exists>f. getHeaderRecordFields sl = Inl f \<and> cut_line_failure sl f)"
proof -
  from len obtain k where m: "getDataLenAsStr sl = Inr (int (k * 2))" and k: "uint n = int k"
    by (rule getLengh_Inr)
  from short k have "int (length sl) < 4 + int (k * 2)" by simp
  from getChecksum_short [OF m this]
  have cs: "getChecksum t sl = Inl Panicked" for t .
  have pan: "cut_line_failure sl Panicked" by (simp add: cut_line_failure_def)
  from ty obtain a where a: "getAddrLenAsStr ty = Inr a" "0 \<le> a"
    by (auto simp: getAddrLenAsStr_def)
  have a0: "getAddrLenAsStr ''S0'' = Inr 4" by (simp add: getAddrLenAsStr_def)
  have "\<exists>f. getDataRecordFields ty sl = Inl f \<and> cut_line_failure sl f"
  proof (cases "getAddress ty sl")
    case (Inl f)
    with len getAddress_failure [OF ty Inl] show ?thesis
      by (simp add: getDataRecordFields_def)
  next
    case addr: (Inr addr)
    show ?thesis
    proof (cases "getData ty sl")
      case (Inl f)
      with len addr getData_failure [OF a m Inl] show ?thesis
        by (simp add: getDataRecordFields_def)
    next
      case (Inr d)
      with len addr cs pan show ?thesis
        by (simp add: getDataRecordFields_def)
    qed
  qed
  moreover have "\<exists>f. getHeaderRecordFields sl = Inl f \<and> cut_line_failure sl f"
  proof (cases "getData ''S0'' sl")
    case (Inl f)
    with len getData_failure [OF a0 _ m Inl] show ?thesis
      by (simp add: getHeaderRecordFields_def)
  next
    case (Inr d)
    with len cs pan show ?thesis
      by (simp add: getHeaderRecordFields_def)
  qed
  ultimately show ?thesis by simp
qed

theorem short_line_never_decodes_witness:
  "getLengh ''S1130000214601'' = Inr 0x13 \<and>
   int (length ''S1130000214601'') < 4 + 2 * uint (0x13 :: u32) \<and>
   ''S1'' \<in> {''S1'', ''S2'', ''S3''} \<and>
   getDataRecordFields ''S1'' ''S1130000214601'' = Inl Panicked \<and>
   getHeaderRecordFields ''S1130000214601'' = Inl Panicked"
proof -
  have h1: "getLengh ''S1130000214601'' = Inr 0x13" by (simp add: decode_defs)
  have h2: "int (length ''S1130000214601'') < 4 + 2 * uint (0x13 :: u32)" by simp
  have h3: "''S1'' \<in> {''S1'', ''S2'', ''S3''}" by simp
  have hex: "\<not> (\<exists>c \<in> set (drop 4 ''S1130000214601''). hexDigit c = None)"
    by (simp add: hexDigit_def)
  show ?thesis
    using h1 h2 short_line_never_decodes [OF h1 h2 h3] hex
    by (auto simp: cut_line_failure_def)
qed

section \<open>Lines of other record types\<close>

lemma scanLines_append:
  "scanLines srs (xs @ ys) =
     (case scanLines srs xs of
        (Some f, s) \<Rightarrow> (Some f, s)
      | (None, s) \<Rightarrow> scanLines s ys)"
  by (induction xs arbitrary: srs) (auto split: sum.splits)

lemma scanLines_000_skip:
  assumes len: "2 \<le> length l" and tag: "take 2 l \<notin> {''S1'', ''S2'', ''S3''}"
  shows "scanLines_000 rec recs (pre @ l # post) = scanLines_000 rec recs (pre @ post)"
proof (induction pre arbitrary: rec recs)
  case Nil
  from len tag show ?case by (simp add: slice_def)
next
  case (Cons x xs)
  then show ?case
    by (simp split: sum.splits prod.splits option.splits failure.splits)
qed

text \<open>
  C2 fails: the \<open>default\<close> case of \<open>ParseFile\<close> is empty, so a line whose first two
  characters are no record type is passed over like \<open>S4\<close> to \<open>S9\<close>.
\<close>

theorem unrecognized_tag_counterexample:
  "ParseFile NewSrec comment_file = (None, gap_image)"
  by (simp add: comment_file_def gap_image_def decode_defs assemble_defs)

text \<open>
  C2, amended. Every line of at least two characters whose first two characters are
  none of \<open>S0\<close>, \<open>S1\<close>, \<open>S2\<close>, \<open>S3\<close> is passed over without an error, whether
  they are a record type or not: \<open>ParseFile\<close> gives the result it gives on the file
  without that line, and so does the earlier \<open>ParseFile\<close>.
\<close>

theorem other_tags_skipped:
  assumes len: "2 \<le> length l"
    and tag: "take 2 l \<notin> {''S0'', ''S1'', ''S2'', ''S3''}"
  shows "ParseFile srs (pre @ l # post) = ParseFile srs (pre @ post) \<and>
         ParseFile_000 recs (pre @ l # post) = ParseFile_000 recs (pre @ post)"
proof -
  have skip: "scanLines s (l # post) = scanLines s post" for s
    using len tag by (simp add: slice_def)
  have "scanLines srs (pre @ l # post) = scanLines srs (pre @ post)"
    unfolding scanLines_append [of srs pre] skip ..
  then have "ParseFile srs (pre @ l # post) = ParseFile srs (pre @ post)"
    by (simp add: ParseFile_def)
  moreover from tag have "take 2 l \<notin> {''S1'', ''S2'', ''S3''}" by simp
  from scanLines_000_skip [OF len this]
  have "ParseFile_000 recs (pre @ l # post) = ParseFile_000 recs (pre @ post)"
    by (simp add: ParseFile_000_def)
  ultimately show ?thesis by simp
qed

theorem other_tags_skipped_witness:
  "2 \<le> length ''XY no record'' \<and>
   take 2 ''XY no record'' \<notin> {''S0'', ''S1'', ''S2'', ''S3''} \<and>
   ParseFile NewSrec
     ([''S0030000FC'', ''S1040010AA00''] @ ''XY no record'' # [''S1040013BB00'', ''S9030000FC''])
     = ParseFile NewSrec gap_file \<and>
   ParseFile_000 []
     ([''S0030000FC'', ''S1040010AA00''] @ ''XY no record'' # [''S1040013BB00'', ''S9030000FC''])
     = ParseFile_000 [] gap_file"
proof -
  have h1: "2 \<le> length ''XY no record''" by simp
  have h2: "take 2 ''XY no record'' \<notin> {''S0'', ''S1'', ''S2'', ''S3''}" by simp
  show ?thesis
    using h1 h2
      other_tags_skipped [OF h1 h2, of NewSrec "[''S0030000FC'', ''S1040010AA00'']"
        "[''S1040013BB00'', ''S9030000FC'']" "[]"]
    by (simp add: gap_file_def)
qed

section \<open>The ordering check\<close>

text \<open>
  What \<open>isAddrAcending\<close> tests: the addresses from the second record on are ascending.
  The first record's address is compared with nothing, the second with zero.
\<close>

lemma ascLoop_sorted:
  "0 < i \<Longrightarrow> ascLoop prevAddr i rs = None \<longleftrightarrow> sorted (prevAddr # map address rs)"
proof (induction rs arbitrary: prevAddr i)
  case Nil
  then show ?case by simp
next
  case (Cons r rs)
  then show ?case by (auto simp: not_less)
qed

lemma isAddrAcending_iff:
  "isAddrAcending sr = None \<longleftrightarrow> sorted (map address (tl (dataRecords sr)))"
proof (cases "dataRecords sr")
  case Nil
  then show ?thesis by (simp add: isAddrAcending_def)
next
  case (Cons r rs)
  then show ?thesis by (simp add: isAddrAcending_def ascLoop_sorted)
qed

text \<open>
  C1 says that every file whose data-record addresses are not ascending is rejected
  with the error of \<open>isAddrAcending\<close>. The file with the addresses \<open>0x100\<close>, \<open>0x050\<close>
  passes \<open>isAddrAcending\<close>; \<open>ParseFile\<close> fails on it later, in \<open>makePaddedBytes\<close>,
  with the out-of-range error. On \<open>swapped_file\<close>, which is not ascending either,
  \<open>ParseFile\<close> succeeds.
\<close>

theorem descending_pair_accepted:
  "isAddrAcending (snd (scanLines NewSrec descending_file)) = None \<and>
   map address (dataRecords (snd (scanLines NewSrec descending_file))) = [0x100, 0x050] \<and>
   fst (ParseFile NewSrec descending_file) = Some (Returned (OutOfRange 0x100)) \<and>
   map address (dataRecords (snd (ParseFile NewSrec swapped_file))) = [2, 1, 3] \<and>
   fst (ParseFile NewSrec swapped_file) = None"
proof -
  have "isAddrAcending (snd (scanLines NewSrec descending_file)) = None \<and>
        map address (dataRecords (snd (scanLines NewSrec descending_file))) = [0x100, 0x050] \<and>
        fst (ParseFile NewSrec descending_file) = Some (Returned (OutOfRange 0x100))"
    by (simp add: descending_file_def decode_defs ParseFile_def NewSrec_def assemble_def
        isDataRecordExists_def isAddrAcending_def getStartAddr_def getEndAddr_def
        getLastRecordDataLen_def makePaddedBytes_def)
  moreover have "map address (dataRecords (snd (ParseFile NewSrec swapped_file))) = [2, 1, 3] \<and>
        fst (ParseFile NewSrec swapped_file) = None"
    by (simp add: swapped_file_def decode_defs assemble_defs)
  ultimately show ?thesis by simp
qed

section \<open>The copy loops of makePaddedBytes\<close>

lemma copyData_length:
  "copyData st en ofst a i ds buf = (res, buf') \<Longrightarrow> length buf' = length buf"
proof (induction ds arbitrary: i buf)
  case Nil
  then show ?case by simp
next
  case (Cons b bs)
  then show ?case
    by (fastforce simp: Let_def split: if_splits)
qed

lemma copyData_frame:
  "copyData st en ofst a i ds buf = (res, buf') \<Longrightarrow>
   \<not> (uint a - ofst + int i \<le> int p \<and> int p < uint a - ofst + int i + int (length ds)) \<Longrightarrow>
   buf' ! p = buf ! p"
proof (induction ds arbitrary: i buf)
  case Nil
  then show ?case by simp
next
  case (Cons b bs)
  let ?idx = "uint a - ofst + int i"
  show ?case
  proof (cases "a < st \<or> a > en \<or> ?idx < 0 \<or> int (length buf) \<le> ?idx")
    case True
    with Cons.prems(1) show ?thesis by (auto simp: Let_def split: if_splits)
  next
    case False
    with Cons.prems(1) have rec: "copyData st en ofst a (i + 1) bs (buf[nat ?idx := b]) = (res, buf')"
      by (auto simp: Let_def)
    from Cons.prems(2) have out: "\<not> (uint a - ofst + int (i + 1) \<le> int p \<and> int p < uint a - ofst + int (i + 1) + int (length bs))"
      by auto
    from False have nonneg: "0 \<le> ?idx" by simp
    have ne: "p \<noteq> nat ?idx"
    proof
      assume "p = nat ?idx"
      with nonneg have "int p = ?idx" by simp
      with Cons.prems(2) show False by simp
    qed
    from Cons.IH [OF rec out] ne show ?thesis by simp
  qed
qed

lemma copyData_written:
  "copyData st en ofst a i ds buf = (None, buf') \<Longrightarrow> k < length ds \<Longrightarrow>
   st \<le> a \<and> a \<le> en \<and> 0 \<le> uint a - ofst + int i + int k \<and>
   uint a - ofst + int i + int k < int (length buf) \<and>
   buf' ! nat (uint a - ofst + int i + int k) = ds ! k"
proof (induction ds arbitrary: i buf k)
  case Nil
  then show ?case by simp
next
  case (Cons b bs)
  let ?idx = "uint a - ofst + int i"
  from Cons.prems(1) have ok: "st \<le> a" "a \<le> en" "0 \<le> ?idx" "?idx < int (length buf)"
    and rec: "copyData st en ofst a (i + 1) bs (buf[nat ?idx := b]) = (None, buf')"
    by (auto simp: Let_def not_less split: if_splits)
  show ?case
  proof (cases k)
    case 0
    have "\<not> (uint a - ofst + int (i + 1) \<le> int (nat ?idx) \<and> int (nat ?idx) < uint a - ofst + int (i + 1) + int (length bs))"
      using ok by simp
    from copyData_frame [OF rec this] ok 0 show ?thesis by simp
  next
    case (Suc k')
    with Cons.prems(2) have "k' < length bs" by simp
    from Cons.IH [OF rec this] Suc ok show ?thesis
      by (simp add: algebra_simps)
  qed
qed

lemma copyRecords_length:
  "copyRecords st en ofst rs buf = (res, buf') \<Longrightarrow> length buf' = length buf"
proof (induction rs arbitrary: buf)
  case Nil
  then show ?case by simp
next
  case (Cons r rs)
  then show ?case
    by (auto split: prod.splits option.splits dest: copyData_length)
qed

lemma copyRecords_frame:
  "copyRecords st en ofst rs buf = (res, buf') \<Longrightarrow>
   \<forall>r \<in> set rs. \<not> (uint (address r) - ofst \<le> int p \<and> int p < uint (address r) - ofst + int (length (data r))) \<Longrightarrow>
   buf' ! p = buf ! p"
proof (induction rs arbitrary: buf)
  case Nil
  then show ?case by simp
next
  case (Cons r rs)
  obtain res1 b1 where c: "copyData st en ofst (address r) 0 (data r) buf = (res1, b1)"
    by (cases "copyData st en ofst (address r) 0 (data r) buf")
  have f1: "b1 ! p = buf ! p"
    using copyData_frame [OF c, of p] Cons.prems(2) by simp
  show ?case
  proof (cases res1)
    case None
    with c Cons.prems(1) have "copyRecords st en ofst rs b1 = (res, buf')" by simp
    from Cons.IH [OF this] Cons.prems(2) f1 show ?thesis by simp
  next
    case (Some f)
    with c Cons.prems(1) have "buf' = b1" by simp
    with f1 show ?thesis by simp
  qed
qed

lemma copyRecords_append:
  "copyRecords st en ofst (xs @ ys) buf =
     (case copyRecords st en ofst xs buf of
        (Some f, b) \<Rightarrow> (Some f, b)
      | (None, b) \<Rightarrow> copyRecords st en ofst ys b)"
  by (induction xs arbitrary: buf) (auto split: prod.splits option.splits)

lemma copyRecords_last_writer:
  assumes run: "copyRecords st en ofst (pre @ r # post) buf = (None, buf')"
    and k: "k < length (data r)"
    and later: "\<forall>r' \<in> set post. \<not> (uint (address r') - ofst \<le> uint (address r) - ofst + int k
                   \<and> uint (address r) - ofst + int k < uint (address r') - ofst + int (length (data r')))"
  shows "st \<le> address r \<and> address r \<le> en \<and> 0 \<le> uint (address r) - ofst + int k \<and>
         uint (address r) - ofst + int k < int (length buf') \<and>
         buf' ! nat (uint (address r) - ofst + int k) = data r ! k"
proof -
  from run obtain b1 where pre: "copyRecords st en ofst pre buf = (None, b1)"
    and rest: "copyRecords st en ofst (r # post) b1 = (None, buf')"
    by (auto simp: copyRecords_append split: prod.splits option.splits)
  from rest obtain b2 where cd: "copyData st en ofst (address r) 0 (data r) b1 = (None, b2)"
    and post: "copyRecords st en ofst post b2 = (None, buf')"
    by (auto split: prod.splits option.splits)
  from copyData_written [OF cd k]
  have w: "st \<le> address r" "address r \<le> en" "0 \<le> uint (address r) - ofst + int k"
    "uint (address r) - ofst + int k < int (length b1)"
    "b2 ! nat (uint (address r) - ofst + int k) = data r ! k"
    by simp_all
  have len: "length buf' = length b1"
    using copyRecords_length [OF post] copyData_length [OF cd] by simp
  have "buf' ! nat (uint (address r) - ofst + int k) = b2 ! nat (uint (address r) - ofst + int k)"
    using copyRecords_frame [OF post, of "nat (uint (address r) - ofst + int k)"] later w(3)
    by simp
  with w len show ?thesis by simp
qed

section \<open>What a successful ParseFile has done\<close>

lemma scanLines_image:
  "scanLines srs ls = (res, s) \<Longrightarrow>
   startAddress s = startAddress srs \<and> endAddress s = endAddress srs \<and> dataBytes s = dataBytes srs"
proof (induction ls arbitrary: srs)
  case Nil
  then show ?case by simp
next
  case (Cons l ls)
  then show ?case
    by (fastforce split: sum.splits if_splits)
qed


lemma assemble_success:
  assumes "assemble s = (None, s')"
  shows "dataRecords s' \<noteq> []"
    and "dataRecords s' = dataRecords s"
    and "startAddress s' = address (hd (dataRecords s'))"
    and "endAddress s' = address (last (dataRecords s'))"
    and "copyRecords (startAddress s') (endAddress s') (uint (startAddress s')) (dataRecords s')
           (dataBytes s @ replicate (unat (endAddress s' - startAddress s'
               + of_nat (length (data (last (dataRecords s')))))) 0xFF)
         = (None, dataBytes s')"
  using assms
  by (auto simp: assemble_def isDataRecordExists_def getStartAddr_def getEndAddr_def
      getLastRecordDataLen_def makePaddedBytes_def padLoop_eq Let_def
      split: option.splits list.splits if_splits sum.splits prod.splits)

lemma ParseFile_success:
  assumes "ParseFile srs ls = (None, s')"
  obtains s where "scanLines srs ls = (None, s)" and "assemble s = (None, s')"
  using assms by (auto simp: ParseFile_def split: prod.splits option.splits)

lemma ParseFile_copy:
  assumes "ParseFile srs ls = (None, s')"
  shows "dataRecords s' \<noteq> []"
    and "startAddress s' = address (hd (dataRecords s'))"
    and "endAddress s' = address (last (dataRecords s'))"
    and "copyRecords (startAddress s') (endAddress s') (uint (startAddress s')) (dataRecords s')
           (dataBytes srs @ replicate (unat (endAddress s' - startAddress s'
               + of_nat (length (data (last (dataRecords s')))))) 0xFF)
         = (None, dataBytes s')"
proof -
  from assms obtain s where sc: "scanLines srs ls = (None, s)" and a: "assemble s = (None, s')"
    by (rule ParseFile_success)
  from scanLines_image [OF sc] have "dataBytes s = dataBytes srs" by simp
  with assemble_success [OF a]
  show "dataRecords s' \<noteq> []"
    and "startAddress s' = address (hd (dataRecords s'))"
    and "endAddress s' = address (last (dataRecords s'))"
    and "copyRecords (startAddress s') (endAddress s') (uint (startAddress s')) (dataRecords s')
           (dataBytes srs @ replicate (unat (endAddress s' - startAddress s'
               + of_nat (length (data (last (dataRecords s')))))) 0xFF)
         = (None, dataBytes s')"
    by simp_all
qed

lemma mod_wrap_free:
  fixes M K :: nat
  assumes "0 < K" and "M - 1 < M mod K"
  shows "M mod K = M"
proof (cases "M < K")
  case True
  then show ?thesis by simp
next
  case False
  then have "M mod K = (M - K) mod K" by (simp add: le_mod_geq)
  also have "\<dots> \<le> M - K" by simp
  finally have "M mod K \<le> M - 1" using assms(1) by simp
  with assms(2) show ?thesis by simp
qed

lemma sorted_hd_le_last:
  fixes xs :: "('a::linorder) list"
  shows "sorted xs \<Longrightarrow> xs \<noteq> [] \<Longrightarrow> hd xs \<le> last xs"
  by (cases xs) auto

lemma copyRecords_in_range:
  assumes run: "copyRecords st en ofst rs buf = (None, buf')"
    and r: "r \<in> set rs" and d: "data r \<noteq> []"
  shows "st \<le> address r \<and> address r \<le> en"
proof -
  from r obtain pre post where rs: "rs = pre @ r # post"
    by (auto dest: split_list)
  from run rs obtain b1 b2 where "copyData st en ofst (address r) 0 (data r) b1 = (None, b2)"
    by (auto simp: copyRecords_append split: prod.splits option.splits)
  from copyData_written [OF this, of 0] d show ?thesis by simp
qed

section \<open>The assembled image\<close>

text \<open>
  C3. After a successful \<open>ParseFile\<close> on a receiver whose buffer was empty, if the
  addresses of the data records are ascending in file order, then \<open>startAddress\<close> is
  the first record's address, \<open>endAddress\<close> the last record's, and the length of
  \<open>Bytes()\<close> is \<open>endAddress - startAddress + lastRecordDataLength\<close>, as integers:
  the 32-bit sum of \<open>makePaddedBytes\<close> has not wrapped.
\<close>

theorem Bytes_length:
  assumes run: "ParseFile srs ls = (None, s')"
    and fresh: "dataBytes srs = []"
    and asc: "sorted (map address (dataRecords s'))"
  shows "startAddress s' = address (hd (dataRecords s')) \<and>
         endAddress s' = address (last (dataRecords s')) \<and>
         int (length (Bytes s')) =
           uint (endAddress s') - uint (startAddress s')
             + int (length (data (last (dataRecords s'))))"
proof -
  let ?recs = "dataRecords s'"
  let ?r = "last ?recs"
  let ?n = "length (data ?r)"
  let ?d = "endAddress s' - startAddress s'"
  note pf = ParseFile_copy [OF run]
  have ne: "?recs \<noteq> []" by (rule pf(1))
  have copy: "copyRecords (startAddress s') (endAddress s') (uint (startAddress s')) ?recs
                (replicate (unat (?d + of_nat ?n)) 0xFF) = (None, dataBytes s')"
    using pf(4) fresh by simp
  have len: "length (dataBytes s') = unat (?d + of_nat ?n)"
    using copyRecords_length [OF copy] by simp
  have le: "startAddress s' \<le> endAddress s'"
    using sorted_hd_le_last [OF asc] ne pf(2,3) by (simp add: hd_map last_map)
  then have d: "unat ?d = unat (endAddress s') - unat (startAddress s')"
    by (rule unat_sub)
  have sum: "unat (?d + of_nat ?n) = unat ?d + ?n"
  proof (cases "?n = 0")
    case True
    then show ?thesis by simp
  next
    case False
    have split: "?recs = butlast ?recs @ ?r # []"
      using ne by simp
    have "copyRecords (startAddress s') (endAddress s') (uint (startAddress s'))
            (butlast ?recs @ ?r # []) (replicate (unat (?d + of_nat ?n)) 0xFF) = (None, dataBytes s')"
      using copy split by simp
    from copyRecords_last_writer [OF this, of "?n - 1"] False
    have "uint (address ?r) - uint (startAddress s') + int (?n - 1) < int (length (dataBytes s'))"
      by (simp add: of_nat_diff Suc_le_eq)
    with pf(3) len have "uint (endAddress s') - uint (startAddress s') + int (?n - 1) < int (unat (?d + of_nat ?n))"
      by simp
    moreover have "uint (endAddress s') - uint (startAddress s') = int (unat ?d)"
      using d le by (simp add: word_le_nat_alt of_nat_diff)
    ultimately have "int (unat ?d) + int (?n - 1) < int (unat (?d + of_nat ?n))"
      by simp
    then have "unat ?d + (?n - 1) < unat (?d + of_nat ?n)"
      by linarith
    then have "(unat ?d + ?n) - 1 < unat (?d + of_nat ?n)"
      using False by simp
    also have "unat (?d + of_nat ?n) = (unat ?d + ?n) mod 2 ^ 32"
      by (simp add: unat_word_ariths unat_of_nat mod_add_right_eq)
    finally have "(unat ?d + ?n) mod 2 ^ 32 = unat ?d + ?n"
      by (intro mod_wrap_free) simp_all
    then show ?thesis
      by (simp add: unat_word_ariths unat_of_nat mod_add_right_eq)
  qed
  have "int (length (Bytes s')) = int (unat ?d) + int ?n"
    using len sum by (simp add: Bytes_def)
  also have "int (unat ?d) = uint (endAddress s') - uint (startAddress s')"
    using d le by (simp add: word_le_nat_alt of_nat_diff)
  finally show ?thesis using pf(2,3) by simp
qed

theorem Bytes_length_witness:
  "ParseFile NewSrec gap_file = (None, gap_image) \<and> dataBytes NewSrec = [] \<and>
   sorted (map address (dataRecords gap_image)) \<and>
   int (length (Bytes gap_image)) =
     uint (endAddress gap_image) - uint (startAddress gap_image)
       + int (length (data (last (dataRecords gap_image))))"
proof -
  have h1: "ParseFile NewSrec gap_file = (None, gap_image)" by (rule ParseFile_gap_file)
  have h2: "dataBytes NewSrec = []" by (simp add: NewSrec_def)
  have h3: "sorted (map address (dataRecords gap_image))" by (simp add: gap_image_def)
  show ?thesis using h1 h2 h3 Bytes_length [OF h1 h2 h3] by simp
qed

text \<open>
  C4 fails where two records overlap: in \<open>overlap_file\<close> the second byte of the first
  record lies at offset 1, where the buffer holds the first byte of the second record.
\<close>

theorem record_bytes_overwritten_counterexample:
  "ParseFile NewSrec overlap_file = (None, overlap_image) \<and>
   Bytes overlap_image ! (nat (recOffset overlap_image (dataRecords overlap_image ! 0)) + 1)
     \<noteq> data (dataRecords overlap_image ! 0) ! 1"
  by (simp add: ParseFile_overlap_file) (simp add: overlap_image_def Bytes_def recOffset_def)

text \<open>
  C4, amended. After a successful \<open>ParseFile\<close>, for every data record and every index
  \<open>i\<close> into its data, the buffer byte at offset \<open>(address - startAddress) + i\<close> is
  \<open>data[i]\<close>, provided no record later in file order covers that offset; the offset
  is not negative and lies inside the buffer.
\<close>

theorem record_bytes_in_buffer:
  assumes run: "ParseFile srs ls = (None, s')"
    and k: "k < length (dataRecords s')"
    and i: "i < length (data (dataRecords s' ! k))"
    and later: "\<forall>r \<in> set (drop (Suc k) (dataRecords s')).
                  \<not> covers s' r (nat (recOffset s' (dataRecords s' ! k)) + i)"
  shows "0 \<le> recOffset s' (dataRecords s' ! k) \<and>
         nat (recOffset s' (dataRecords s' ! k)) + i < length (Bytes s') \<and>
         Bytes s' ! (nat (recOffset s' (dataRecords s' ! k)) + i) = data (dataRecords s' ! k) ! i"
proof -
  let ?recs = "dataRecords s'"
  let ?r = "?recs ! k"
  note pf = ParseFile_copy [OF run]
  have split: "?recs = take k ?recs @ ?r # drop (Suc k) ?recs"
    using k by (simp add: id_take_nth_drop)
  have copy: "copyRecords (startAddress s') (endAddress s') (uint (startAddress s'))
                (take k ?recs @ ?r # drop (Suc k) ?recs)
                (dataBytes srs @ replicate (unat (endAddress s' - startAddress s'
                   + of_nat (length (data (last ?recs))))) 0xFF) = (None, dataBytes s')"
    using pf(4) split by simp
  have "?r \<in> set ?recs" using k by simp
  moreover have "data ?r \<noteq> []" using i by auto
  ultimately have "startAddress s' \<le> address ?r"
    using copyRecords_in_range [OF pf(4)] by blast
  then have off: "0 \<le> recOffset s' ?r"
    by (simp add: recOffset_def word_le_def)
  then have p: "int (nat (recOffset s' ?r) + i) = uint (address ?r) - uint (startAddress s') + int i"
    by (simp add: recOffset_def)
  have "\<forall>r' \<in> set (drop (Suc k) ?recs).
          \<not> (uint (address r') - uint (startAddress s') \<le> uint (address ?r) - uint (startAddress s') + int i
             \<and> uint (address ?r) - uint (startAddress s') + int i
                 < uint (address r') - uint (startAddress s') + int (length (data r')))"
    using later unfolding covers_def p by (simp add: recOffset_def)
  from copyRecords_last_writer [OF copy i this]
  have "uint (address ?r) - uint (startAddress s') + int i < int (length (dataBytes s'))"
    and "dataBytes s' ! nat (uint (address ?r) - uint (startAddress s') + int i) = data ?r ! i"
    by simp_all
  moreover have "nat (uint (address ?r) - uint (startAddress s') + int i) = nat (recOffset s' ?r) + i"
    using off by (simp add: recOffset_def nat_add_distrib)
  moreover have "0 \<le> uint (address ?r) - uint (startAddress s') + int i"
    using off by (simp add: recOffset_def)
  ultimately have "nat (recOffset s' ?r) + i < length (dataBytes s')"
    and "dataBytes s' ! (nat (recOffset s' ?r) + i) = data ?r ! i"
    by (simp_all add: nat_less_iff)
  with off show ?thesis by (simp add: Bytes_def)
qed

theorem record_bytes_in_buffer_witness:
  "ParseFile NewSrec overlap_file = (None, overlap_image) \<and>
   0 < length (dataRecords overlap_image) \<and>
   0 < length (data (dataRecords overlap_image ! 0)) \<and>
   \<not> covers overlap_image (dataRecords overlap_image ! 1)
       (nat (recOffset overlap_image (dataRecords overlap_image ! 0)) + 0) \<and>
   Bytes overlap_image ! (nat (recOffset overlap_image (dataRecords overlap_image ! 0)) + 0)
     = data (dataRecords overlap_image ! 0) ! 0"
proof -
  have h1: "ParseFile NewSrec overlap_file = (None, overlap_image)" by (rule ParseFile_overlap_file)
  have h2: "0 < length (dataRecords overlap_image)" by (simp add: overlap_image_def)
  have h3: "0 < length (data (dataRecords overlap_image ! 0))" by (simp add: overlap_image_def)
  have h4: "\<forall>r \<in> set (drop (Suc 0) (dataRecords overlap_image)).
      \<not> covers overlap_image r (nat (recOffset overlap_image (dataRecords overlap_image ! 0)) + 0)"
    by (simp add: overlap_image_def covers_def recOffset_def)
  show ?thesis using h1 h2 h3 record_bytes_in_buffer [OF h1 h2 h3 h4]
    by (simp add: overlap_image_def covers_def recOffset_def)
qed

text \<open>
  C5. After a successful \<open>ParseFile\<close> on a receiver whose buffer was empty, every
  byte of the buffer at an offset that no data record covers is the fill byte \<open>0xFF\<close>.
\<close>

theorem uncovered_is_fill:
  assumes run: "ParseFile srs ls = (None, s')"
    and fresh: "dataBytes srs = []"
    and p: "p < length (Bytes s')"
    and unc: "\<forall>r \<in> set (dataRecords s'). \<not> covers s' r p"
  shows "Bytes s' ! p = 0xFF"
proof -
  note pf = ParseFile_copy [OF run]
  let ?n = "unat (endAddress s' - startAddress s' + of_nat (length (data (last (dataRecords s')))))"
  have copy: "copyRecords (startAddress s') (endAddress s') (uint (startAddress s')) (dataRecords s')
                (replicate ?n 0xFF) = (None, dataBytes s')"
    using pf(4) fresh by simp
  have "length (dataBytes s') = ?n"
    using copyRecords_length [OF copy] by simp
  with p have pn: "p < ?n" by (simp add: Bytes_def)
  have "dataBytes s' ! p = replicate ?n 0xFF ! p"
    using copyRecords_frame [OF copy, of p] unc by (simp add: covers_def recOffset_def)
  with pn show ?thesis by (simp add: Bytes_def)
qed

theorem uncovered_is_fill_witness:
  "ParseFile NewSrec gap_file = (None, gap_image) \<and> dataBytes NewSrec = [] \<and>
   2 < length (Bytes gap_image) \<and> \<not> covers gap_image (dataRecords gap_image ! 0) 2 \<and>
   \<not> covers gap_image (dataRecords gap_image ! 1) 2 \<and> Bytes gap_image ! 2 = 0xFF"
proof -
  have h1: "ParseFile NewSrec gap_file = (None, gap_image)" by (rule ParseFile_gap_file)
  have h2: "dataBytes NewSrec = []" by (simp add: NewSrec_def)
  have h3: "2 < length (Bytes gap_image)" by (simp add: gap_image_def Bytes_def)
  have h4: "\<forall>r \<in> set (dataRecords gap_image). \<not> covers gap_image r 2"
    by (simp add: gap_image_def covers_def recOffset_def)
  show ?thesis using h1 h2 h3 uncovered_is_fill [OF h1 h2 h3 h4]
    by (simp add: gap_image_def covers_def recOffset_def)
qed

text \<open>
  C10. The records are copied in file order, so the record copied last decides: after a
  successful \<open>ParseFile\<close>, a buffer byte that data records cover holds the
  corresponding data byte of the last record in file order among those that cover it.
  Where two records overlap, that is the later one. Records at the same address pass the
  ordering check, as \<open>same_address_file\<close> shows.
\<close>

theorem later_record_wins:
  assumes run: "ParseFile srs ls = (None, s')"
    and cov: "filter (\<lambda>r. covers s' r p) (dataRecords s') \<noteq> []"
  shows "p < length (Bytes s') \<and>
         Bytes s' ! p =
           data (last (filter (\<lambda>r. covers s' r p) (dataRecords s')))
             ! nat (int p - recOffset s' (last (filter (\<lambda>r. covers s' r p) (dataRecords s'))))"
proof -
  let ?P = "\<lambda>r. covers s' r p"
  let ?recs = "dataRecords s'"
  note pf = ParseFile_copy [OF run]
  from cov have "\<exists>r \<in> set ?recs. ?P r"
    by (auto simp: filter_empty_conv)
  then obtain pre r post where split: "?recs = pre @ r # post" and r: "?P r"
    and post: "\<forall>z \<in> set post. \<not> ?P z"
    using split_list_last_prop [of ?recs ?P] by blast
  have "filter ?P ?recs = filter ?P pre @ [r]"
    using split r post by simp
  then have last: "last (filter ?P ?recs) = r" by simp
  let ?k = "nat (int p - recOffset s' r)"
  from r have k: "?k < length (data r)"
    and pk: "uint (address r) - uint (startAddress s') + int ?k = int p"
    by (auto simp: covers_def recOffset_def)
  have copy: "copyRecords (startAddress s') (endAddress s') (uint (startAddress s'))
                (pre @ r # post)
                (dataBytes srs @ replicate (unat (endAddress s' - startAddress s'
                   + of_nat (length (data (last ?recs))))) 0xFF) = (None, dataBytes s')"
    using pf(4) split by simp
  have "\<forall>r' \<in> set post.
          \<not> (uint (address r') - uint (startAddress s') \<le> uint (address r) - uint (startAddress s') + int ?k
             \<and> uint (address r) - uint (startAddress s') + int ?k
                 < uint (address r') - uint (startAddress s') + int (length (data r')))"
    using post unfolding pk by (simp add: covers_def recOffset_def)
  from copyRecords_last_writer [OF copy k this]
  have "int p < int (length (dataBytes s'))" and "dataBytes s' ! nat (int p) = data r ! ?k"
    unfolding pk by simp_all
  then show ?thesis
    unfolding last by (simp add: Bytes_def)
qed

theorem later_record_wins_witness:
  "ParseFile NewSrec same_address_file = (None, same_address_image) \<and>
   filter (\<lambda>r. covers same_address_image r 0) (dataRecords same_address_image)
     = dataRecords same_address_image \<and>
   Bytes same_address_image ! 0 = data (dataRecords same_address_image ! 1) ! 0"
proof -
  have h1: "ParseFile NewSrec same_address_file = (None, same_address_image)"
    by (rule ParseFile_same_address_file)
  have h2: "filter (\<lambda>r. covers same_address_image r 0) (dataRecords same_address_image)
              = dataRecords same_address_image"
    by (simp add: same_address_image_def covers_def recOffset_def)
  have h3: "filter (\<lambda>r. covers same_address_image r 0) (dataRecords same_address_image) \<noteq> []"
    unfolding h2 by (simp add: same_address_image_def)
  show ?thesis using h1 h2 later_record_wins [OF h1 h3]
    by (simp add: same_address_image_def recOffset_def)
qed

section \<open>The receiver after a failed ParseFile\<close>








section \<open>SetBytes\<close>

text \<open>
  The loop of \<open>SetBytes\<close> in closed form: it replaces the bytes from \<open>start + i\<close> on
  when they all lie inside the buffer, and panics at the first one that does not.
\<close>

lemma setLoop_eq:
  "0 \<le> start \<Longrightarrow>
   setLoop start i bs buf =
     (if bs = [] \<or> nat start + i + length bs \<le> length buf
      then (None, take (nat start + i) buf @ bs @ drop (nat start + i + length bs) buf)
      else (Some Panicked, take (nat start + i) buf @ take (length buf - (nat start + i)) bs))"
proof (induction bs arbitrary: i buf)
  case Nil
  then show ?case by simp
next
  case (Cons b bs)
  let ?j = "nat start + i"
  have idx: "start + int i = int ?j" using Cons.prems by simp
  show ?case
  proof (cases "?j < length buf")
    case False
    then have "int (length buf) \<le> start + int i" using Cons.prems by linarith
    then have "setLoop start i (b # bs) buf = (Some Panicked, buf)"
      by (simp add: Let_def)
    with False show ?thesis by simp
  next
    case True
    then have "\<not> int (length buf) \<le> start + int i" "\<not> start + int i < 0"
      using Cons.prems by linarith+
    then have step0: "setLoop start i (b # bs) buf = setLoop start (i + 1) bs (buf[nat (start + int i) := b])"
      by (simp add: Let_def)
    have step: "setLoop start i (b # bs) buf = setLoop start (i + 1) bs (buf[?j := b])"
      using step0 Cons.prems by (simp add: nat_add_distrib)
    have tk: "take (Suc ?j) (buf[?j := b]) = take ?j buf @ [b]"
      using True by (simp add: take_Suc_conv_app_nth)
    have dr: "\<And>m. drop (Suc (?j + m)) (buf[?j := b]) = drop (Suc (?j + m)) buf"
      by simp
    obtain m where m: "length buf - ?j = Suc m"
      using True by (cases "length buf - ?j") auto
    then have m': "length buf - Suc ?j = m" by simp
    show ?thesis
      unfolding step Cons.IH [OF Cons.prems]
      using True tk dr [of "length bs"] m m' by (simp add: Suc_le_eq)
  qed
qed

text \<open>
  C8. On a receiver with data records: \<open>SetBytes\<close> with an address below
  \<open>startAddress\<close> or above \<open>endAddress\<close> returns the out-of-range error and leaves
  the receiver as it is; with an address in between and data that fits into the buffer
  it returns no error, replaces the \<open>len(wBytes)\<close> bytes from offset
  \<open>wAddr - startAddress\<close> on and changes nothing else.
\<close>

theorem SetBytes_frame:
  assumes asm: "dataRecords sr \<noteq> []"
  shows "(wAddr < startAddress sr \<or> endAddress sr < wAddr \<longrightarrow>
            SetBytes sr wAddr wBytes = (Some (Returned (OutOfRange wAddr)), sr)) \<and>
         (startAddress sr \<le> wAddr \<and> wAddr \<le> endAddress sr \<and>
          unat wAddr - unat (startAddress sr) + length wBytes \<le> length (dataBytes sr) \<longrightarrow>
            SetBytes sr wAddr wBytes =
              (None, sr\<lparr>dataBytes :=
                 take (unat wAddr - unat (startAddress sr)) (dataBytes sr) @ wBytes @
                 drop (unat wAddr - unat (startAddress sr) + length wBytes) (dataBytes sr)\<rparr>))"
proof (intro conjI impI)
  assume "wAddr < startAddress sr \<or> endAddress sr < wAddr"
  with asm show "SetBytes sr wAddr wBytes = (Some (Returned (OutOfRange wAddr)), sr)"
    by (simp add: SetBytes_def)
next
  assume h: "startAddress sr \<le> wAddr \<and> wAddr \<le> endAddress sr \<and>
             unat wAddr - unat (startAddress sr) + length wBytes \<le> length (dataBytes sr)"
  then have le: "startAddress sr \<le> wAddr" by simp
  then have start: "0 \<le> uint wAddr - uint (startAddress sr)"
    by (simp add: word_le_def)
  have n: "nat (uint wAddr - uint (startAddress sr)) = unat wAddr - unat (startAddress sr)"
    by (simp add: nat_diff_distrib')
  from h asm show "SetBytes sr wAddr wBytes =
      (None, sr\<lparr>dataBytes :=
         take (unat wAddr - unat (startAddress sr)) (dataBytes sr) @ wBytes @
         drop (unat wAddr - unat (startAddress sr) + length wBytes) (dataBytes sr)\<rparr>)"
    by (simp add: SetBytes_def setLoop_eq [OF start] n not_less)
qed

theorem SetBytes_frame_witness:
  "dataRecords gap_image \<noteq> [] \<and>
   SetBytes gap_image 0x0F [1, 2] = (Some (Returned (OutOfRange 0x0F)), gap_image) \<and>
   SetBytes gap_image 0x14 [1, 2] = (Some (Returned (OutOfRange 0x14)), gap_image) \<and>
   SetBytes gap_image 0x11 [1, 2] = (None, gap_image\<lparr>dataBytes := [0xAA, 1, 2, 0xBB]\<rparr>)"
proof -
  have h: "dataRecords gap_image \<noteq> []" by (simp add: gap_image_def)
  show ?thesis
    using h SetBytes_frame [OF h, of "0x0F" "[1, 2]"] SetBytes_frame [OF h, of "0x14" "[1, 2]"]
      SetBytes_frame [OF h, of "0x11" "[1, 2]"]
    by (simp add: gap_image_def)
qed

text \<open>
  C9. \<open>SetBytes\<close> tests the start address only. On a receiver with data records and
  with an address between \<open>startAddress\<close> and \<open>endAddress\<close> it returns no error,
  whatever the data are; when the data reach beyond the end of the buffer, the loop
  stores the bytes that fit and the store past the end of the buffer panics.
\<close>

theorem SetBytes_no_upper_check:
  assumes asm: "dataRecords sr \<noteq> []"
    and lo: "startAddress sr \<le> wAddr" and hi: "wAddr \<le> endAddress sr"
  shows "fst (SetBytes sr wAddr wBytes) \<noteq> Some (Returned e) \<and>
         (wBytes \<noteq> [] \<and>
          length (dataBytes sr) < unat wAddr - unat (startAddress sr) + length wBytes \<longrightarrow>
            SetBytes sr wAddr wBytes =
              (Some Panicked, sr\<lparr>dataBytes :=
                 take (unat wAddr - unat (startAddress sr)) (dataBytes sr) @
                 take (length (dataBytes sr) - (unat wAddr - unat (startAddress sr))) wBytes\<rparr>))"
proof -
  from lo have start: "0 \<le> uint wAddr - uint (startAddress sr)"
    by (simp add: word_le_def)
  have n: "nat (uint wAddr - uint (startAddress sr)) = unat wAddr - unat (startAddress sr)"
    by (simp add: nat_diff_distrib')
  from lo hi have inside: "\<not> wAddr < startAddress sr" "\<not> endAddress sr < wAddr"
    by (simp_all add: not_less)
  from asm inside show ?thesis
    by (simp add: SetBytes_def setLoop_eq [OF start] n)
qed

theorem SetBytes_no_upper_check_witness:
  "dataRecords gap_image \<noteq> [] \<and> startAddress gap_image \<le> 0x13 \<and> 0x13 \<le> endAddress gap_image \<and>
   length (dataBytes gap_image)
     < unat (0x13 :: u32) - unat (startAddress gap_image) + length [1, 2 :: byte] \<and>
   SetBytes gap_image 0x13 [1, 2] = (Some Panicked, gap_image\<lparr>dataBytes := [0xAA, 0xFF, 0xFF, 1]\<rparr>)"
proof -
  have h1: "dataRecords gap_image \<noteq> []" by (simp add: gap_image_def)
  have h2: "startAddress gap_image \<le> 0x13" by (simp add: gap_image_def)
  have h3: "0x13 \<le> endAddress gap_image" by (simp add: gap_image_def)
  have h4: "length (dataBytes gap_image)
              < unat (0x13 :: u32) - unat (startAddress gap_image) + length [1, 2 :: byte]"
    by (simp add: gap_image_def)
  show ?thesis
    using h1 h2 h3 h4 SetBytes_no_upper_check [OF h1 h2 h3, of "[1, 2]"]
    by (simp add: gap_image_def)
qed

end
